theory Spec2Isabelle
  imports Main
begin

section \<open>Include preprocessing of diagram sources (src/preprocess.js)\<close>

text \<open>
  A JavaScript string is modelled as a \<^typ>\<open>string\<close>: each character stands for one code
  unit below 256. In that range the whitespace class \<open>\s\<close> of a regular expression (and of
  \<open>trim\<close>) is tab, line feed, vertical tab, form feed, carriage return, space and the
  no-break space, and the line terminators, which \<open>.\<close> does not match, are line feed and
  carriage return.
\<close>

subsection \<open>Character classes\<close>

definition LF :: char where "LF = CHR 0x0A"
definition CR :: char where "CR = CHR 0x0D"
definition APOS :: char where "APOS = CHR 0x27"
definition BSLASH :: char where "BSLASH = CHR 0x5C"

definition is_space :: "char \<Rightarrow> bool" where
  "is_space c = (c = CHR 0x09 \<or> c = CHR 0x0A \<or> c = CHR 0x0B \<or> c = CHR 0x0C \<or> c = CHR 0x0D
                 \<or> c = CHR 0x20 \<or> c = CHR 0xA0)"

definition is_line_terminator :: "char \<Rightarrow> bool" where
  "is_line_terminator c = (c = CHR 0x0A \<or> c = CHR 0x0D)"

text \<open>The regular expression atom \<open>.\<close> (no \<open>s\<close> flag).\<close>

definition dot :: "char \<Rightarrow> bool" where
  "dot c = (\<not> is_line_terminator c)"

subsection \<open>String helpers of the platform\<close>

text \<open>\<open>s.startsWith(p)\<close> with the rest of the string after the prefix.\<close>

fun strip_prefix :: "string \<Rightarrow> string \<Rightarrow> string option" where
  "strip_prefix [] s = Some s"
| "strip_prefix (p # ps) [] = None"
| "strip_prefix (p # ps) (c # cs) = (if p = c then strip_prefix ps cs else None)"

text \<open>\<open>s.split(sep)\<close> for a one-character separator: never the empty list.\<close>

fun split_on :: "char \<Rightarrow> string \<Rightarrow> string list" where
  "split_on sep [] = [[]]"
| "split_on sep (c # cs) =
     (case split_on sep cs of
        [] \<Rightarrow> [[c]]
      | l # ls \<Rightarrow> if c = sep then [] # l # ls else (c # l) # ls)"

text \<open>\<open>parts.join(sep)\<close>.\<close>

fun join :: "string \<Rightarrow> string list \<Rightarrow> string" where
  "join sep [] = []"
| "join sep [x] = x"
| "join sep (x # y # ys) = x @ sep @ join sep (y # ys)"

definition trim :: "string \<Rightarrow> string" where
  "trim s = rev (dropWhile is_space (rev (dropWhile is_space s)))"

subsection \<open>Comment stripping\<close>

text \<open>
  \<open>regExCommentMultiLine = /\/'([\s\S]*?)'\//g\<close>. After the opening \<open>/'\<close> the lazy body
  ends at the first \<open>'/\<close>; \<open>block_comment_end\<close> returns what follows it.
\<close>

fun block_comment_end :: "string \<Rightarrow> string option" where
  "block_comment_end (c # d # cs) =
     (if c = APOS \<and> d = CHR ''/'' then Some cs else block_comment_end (d # cs))"
| "block_comment_end _ = None"

text \<open>The match of \<open>regExCommentMultiLine\<close> anchored at the start of the input.\<close>

fun regExCommentMultiLine :: "string \<Rightarrow> string option" where
  "regExCommentMultiLine (c # d # cs) =
     (if c = CHR ''/'' \<and> d = APOS then block_comment_end cs else None)"
| "regExCommentMultiLine _ = None"

lemma block_comment_end_length:
  "block_comment_end s = Some r \<Longrightarrow> length r < length s"
  by (induction s arbitrary: r rule: block_comment_end.induct) (auto split: if_splits)

lemma regExCommentMultiLine_length:
  "regExCommentMultiLine s = Some r \<Longrightarrow> length r < length s"
  by (cases s rule: regExCommentMultiLine.cases)
     (auto split: if_splits dest: block_comment_end_length)

text \<open>
  \<open>text.replace(regExCommentMultiLine, '')\<close>: at each position, from the left, a match is
  deleted and scanning goes on after it; otherwise the character is kept.
\<close>

function remove_block_comments :: "string \<Rightarrow> string" where
  "remove_block_comments [] = []"
| "remove_block_comments (c # cs) =
     (case regExCommentMultiLine (c # cs) of
        Some rest \<Rightarrow> remove_block_comments rest
      | None \<Rightarrow> c # remove_block_comments cs)"
  by pat_completeness auto
termination
  by (relation "measure length") (auto dest: regExCommentMultiLine_length)

text \<open>
  \<open>regExCommentSingleLine = /.*'.*'.*(\r\n|\n)/g\<close>. No \<open>.\<close> crosses a line terminator, so
  a match that starts here covers the run of characters up to the first line terminator,
  needs two apostrophes in that run, and ends after the \<open>\n\<close> or \<open>\r\n\<close> that must follow
  the run. The function returns what follows the match.
\<close>

definition regExCommentSingleLine :: "string \<Rightarrow> string option" where
  "regExCommentSingleLine s =
     (if 2 \<le> count_list (takeWhile dot s) APOS then
        (case dropWhile dot s of
           c # r \<Rightarrow>
             if c = LF then Some r
             else if c = CR then (case r of d # r' \<Rightarrow> if d = LF then Some r' else None | [] \<Rightarrow> None)
             else None
         | [] \<Rightarrow> None)
      else None)"

lemma regExCommentSingleLine_length:
  "regExCommentSingleLine s = Some r \<Longrightarrow> length r < length s"
proof -
  assume a: "regExCommentSingleLine s = Some r"
  have "length (dropWhile dot s) \<le> length s"
    by (rule length_dropWhile_le)
  with a show ?thesis
    by (auto simp: regExCommentSingleLine_def split: if_splits list.splits)
qed

function remove_line_comments :: "string \<Rightarrow> string" where
  "remove_line_comments [] = []"
| "remove_line_comments (c # cs) =
     (case regExCommentSingleLine (c # cs) of
        Some rest \<Rightarrow> remove_line_comments rest
      | None \<Rightarrow> c # remove_line_comments cs)"
  by pat_completeness auto
termination
  by (relation "measure length") (auto dest: regExCommentSingleLine_length)

subsection \<open>The include grammar\<close>

text \<open>
  \<open>regExInclude = /^\s*!(include(?:_many|_once|url|sub)?)\s+((?:(?<=\\)[ ]|[^ ])+)(.*)/\<close>,
  with no flag: the keyword is matched as it is written, in lower case. The matcher follows
  the backtracking of the expression. The three capture groups and the part of the line
  after the match (\<open>.\<close> stops at a line terminator) are returned.
\<close>

record include_match =
  group1 :: string
  group2 :: string
  group3 :: string
  unmatched :: string

text \<open>
  Group 2, \<open>(?:(?<=\\)[ ]|[^ ])+\<close>, greedy: a space is taken only after a backslash, any
  other character always; \<open>p\<close> is the character before the position. What follows,
  \<open>(.*)\<close>, matches anything, so the longest run is the one that is kept.
\<close>

fun reference_token :: "char \<Rightarrow> string \<Rightarrow> string" where
  "reference_token p [] = []"
| "reference_token p (c # cs) =
     (if (p = BSLASH \<and> c = CHR '' '') \<or> c \<noteq> CHR '' '' then c # reference_token c cs else [])"

definition include_reference :: "string \<Rightarrow> char \<Rightarrow> string \<Rightarrow> include_match option" where
  "include_reference kw p s =
     (let tok = reference_token p s in
      if tok = [] then None
      else Some \<lparr>group1 = kw, group2 = tok,
                  group3 = takeWhile dot (drop (length tok) s),
                  unmatched = dropWhile dot (drop (length tok) s)\<rparr>)"

text \<open>
  A greedy run of whitespace followed by \<open>k\<close>: the longest run is tried first, and a shorter
  one when \<open>k\<close> fails after it. \<open>k\<close> gets the character before its position.
\<close>

fun spaces_then :: "(char \<Rightarrow> string \<Rightarrow> 'a option) \<Rightarrow> char \<Rightarrow> string \<Rightarrow> 'a option" where
  "spaces_then k p [] = k p []"
| "spaces_then k p (c # cs) =
     (if is_space c then
        (case spaces_then k c cs of Some m \<Rightarrow> Some m | None \<Rightarrow> k p (c # cs))
      else k p (c # cs))"

text \<open>\<open>\s+\<close> followed by \<open>k\<close>.\<close>

definition spaces1_then :: "(char \<Rightarrow> string \<Rightarrow> 'a option) \<Rightarrow> string \<Rightarrow> 'a option" where
  "spaces1_then k s =
     (case s of [] \<Rightarrow> None | c # cs \<Rightarrow> if is_space c then spaces_then k c cs else None)"

text \<open>The first alternative that matches, in the order the expression lists them.\<close>

fun first_match :: "('a \<Rightarrow> 'b option) \<Rightarrow> 'a list \<Rightarrow> 'b option" where
  "first_match f [] = None"
| "first_match f (x # xs) = (case f x of Some y \<Rightarrow> Some y | None \<Rightarrow> first_match f xs)"

text \<open>The optional group \<open>(?:_many|_once|url|sub)?\<close>: its alternatives, then nothing.\<close>

definition keyword_suffixes :: "string list" where
  "keyword_suffixes = [''_many'', ''_once'', ''url'', ''sub'', []]"

definition regExInclude :: "string \<Rightarrow> include_match option" where
  "regExInclude line =
     (case dropWhile is_space line of
        [] \<Rightarrow> None
      | c # s \<Rightarrow>
          if c = CHR ''!'' then
            (case strip_prefix ''include'' s of
               None \<Rightarrow> None
             | Some s' \<Rightarrow>
                 first_match
                   (\<lambda>suffix. case strip_prefix suffix s' of
                       None \<Rightarrow> None
                     | Some s'' \<Rightarrow> spaces1_then (include_reference (''include'' @ suffix)) s'')
                   keyword_suffixes)
          else None)"

subsection \<open>Block expressions\<close>

text \<open>
  The selector of a directive is spliced into the source of a regular expression
  (\<open>new RegExp(`...${sub}...`)\<close>) and is read there as a pattern. The model reads a
  \<open>.\<close> of the selector as the wildcard it is and every other character as itself; a
  selector with another syntax character of regular expressions is not covered, and
  \<open>plain_selector\<close> says that a selector has no syntax character at all.
\<close>

datatype atom = Lit char | AnyChar

definition regex_fragment :: "string \<Rightarrow> atom list" where
  "regex_fragment s = map (\<lambda>c. if c = CHR ''.'' then AnyChar else Lit c) s"

definition syntax_character :: "char \<Rightarrow> bool" where
  "syntax_character c = (c \<in> set ''^$.*+?()[]{}|'' \<or> c = BSLASH)"

definition plain_selector :: "string \<Rightarrow> bool" where
  "plain_selector s = list_all (\<lambda>c. \<not> syntax_character c) s"

fun match_atom :: "atom \<Rightarrow> char \<Rightarrow> bool" where
  "match_atom (Lit l) c = (l = c)"
| "match_atom AnyChar c = dot c"

fun match_atoms :: "atom list \<Rightarrow> string \<Rightarrow> string option" where
  "match_atoms [] s = Some s"
| "match_atoms (a # as) [] = None"
| "match_atoms (a # as) (c # cs) = (if match_atom a c then match_atoms as cs else None)"

text \<open>\<open>(?:\r\n|\n)\<close>\<close>

fun line_break :: "string \<Rightarrow> string option" where
  "line_break [] = None"
| "line_break (c # cs) =
     (if c = CR then (case cs of [] \<Rightarrow> None | d # r \<Rightarrow> if d = LF then Some r else None)
      else if c = LF then Some cs
      else None)"

text \<open>
  \<open>([\s\S]*?)(?:\r\n|\n)END\<close>: the lazy body grows by one character until a line break and
  the end marker follow. The body and the input after the marker are returned.
\<close>

fun lazy_body :: "string \<Rightarrow> string \<Rightarrow> (string \<times> string) option" where
  "lazy_body e [] = None"
| "lazy_body e (c # cs) =
     (case Option.bind (line_break (c # cs)) (strip_prefix e) of
        Some r \<Rightarrow> Some ([], r)
      | None \<Rightarrow> map_option (\<lambda>(b, r). (c # b, r)) (lazy_body e cs))"

text \<open>
  The three block expressions of the source, all with the flags \<open>gm\<close>:
  \<^item> \<open>@startuml(?:\r\n|\n)([\s\S]*?)(?:\r\n|\n)@enduml\<close>
  \<^item> \<open>@startuml\(id=${id}\)(?:\r\n|\n)([\s\S]*?)(?:\r\n|\n)@enduml\<close>
  \<^item> \<open>!startsub\s+${sub}(?:\r\n|\n)([\s\S]*?)(?:\r\n|\n)!endsub\<close>
\<close>

datatype block_regex = StartUml | StartUmlId string | StartSub string

text \<open>A match at the start of the input: group 1 and the input after the match.\<close>

fun match_here :: "block_regex \<Rightarrow> string \<Rightarrow> (string \<times> string) option" where
  "match_here StartUml s =
     Option.bind (Option.bind (strip_prefix ''@startuml'' s) line_break) (lazy_body ''@enduml'')"
| "match_here (StartUmlId ident) s =
     Option.bind (Option.bind (Option.bind (Option.bind
       (strip_prefix ''@startuml(id='' s)
       (match_atoms (regex_fragment ident)))
       (strip_prefix '')''))
       line_break)
       (lazy_body ''@enduml'')"
| "match_here (StartSub sub) s =
     Option.bind (strip_prefix ''!startsub'' s)
       (spaces1_then (\<lambda>p r.
          Option.bind (Option.bind (match_atoms (regex_fragment sub) r) line_break)
            (lazy_body ''!endsub'')))"

text \<open>
  \<open>regEx.exec(text)\<close> of an expression with the \<open>g\<close> flag: the input is the text from
  \<open>lastIndex\<close> on, the result the leftmost match there and the text after it, which is the
  next \<open>lastIndex\<close>.
\<close>

fun exec :: "block_regex \<Rightarrow> string \<Rightarrow> (string \<times> string) option" where
  "exec rx [] = match_here rx []"
| "exec rx (c # cs) =
     (case match_here rx (c # cs) of Some m \<Rightarrow> Some m | None \<Rightarrow> exec rx cs)"

lemma strip_prefix_length:
  "strip_prefix p s = Some r \<Longrightarrow> length r + length p = length s"
  by (induction p s rule: strip_prefix.induct) (auto split: if_splits)

lemma match_atoms_length:
  "match_atoms as s = Some r \<Longrightarrow> length r \<le> length s"
  by (induction as s rule: match_atoms.induct) (auto split: if_splits)

lemma line_break_length:
  "line_break s = Some r \<Longrightarrow> length r < length s"
  by (cases s) (auto split: if_splits list.splits)

lemma lazy_body_length:
  "lazy_body e s = Some (b, r) \<Longrightarrow> length r < length s"
proof (induction s arbitrary: b)
  case Nil
  then show ?case by simp
next
  case (Cons c cs)
  show ?case
  proof (cases "Option.bind (line_break (c # cs)) (strip_prefix e)")
    case (Some r')
    then obtain t where "line_break (c # cs) = Some t" and "strip_prefix e t = Some r'"
      by (auto simp: bind_eq_Some_conv)
    then have "length r' < length (c # cs)"
      using line_break_length [of "c # cs" t] strip_prefix_length [of e t r'] by simp
    with Cons.prems Some show ?thesis by simp
  next
    case None
    with Cons.prems obtain b' where "lazy_body e cs = Some (b', r)"
      by auto
    then have "length r < length cs" by (rule Cons.IH)
    then show ?thesis by simp
  qed
qed

lemma spaces_then_length:
  assumes "\<And>p s x. k p s = Some x \<Longrightarrow> length (snd x) \<le> length s"
  shows "spaces_then k p s = Some x \<Longrightarrow> length (snd x) \<le> length s"
proof (induction s arbitrary: p)
  case Nil
  then show ?case using assms [of p "[]" x] by simp
next
  case (Cons c cs)
  show ?case
  proof (cases "is_space c")
    case True
    show ?thesis
    proof (cases "spaces_then k c cs")
      case None
      with True Cons.prems show ?thesis using assms [of p "c # cs" x] by simp
    next
      case (Some m)
      with True Cons.prems have "spaces_then k c cs = Some x" by simp
      then have "length (snd x) \<le> length cs" by (rule Cons.IH)
      then show ?thesis by simp
    qed
  next
    case False
    with Cons.prems show ?thesis using assms [of p "c # cs" x] by simp
  qed
qed

lemma spaces1_then_length:
  assumes "\<And>p s x. k p s = Some x \<Longrightarrow> length (snd x) \<le> length s"
  shows "spaces1_then k s = Some x \<Longrightarrow> length (snd x) \<le> length s"
proof -
  assume a: "spaces1_then k s = Some x"
  then obtain c cs where s: "s = c # cs" and "spaces_then k c cs = Some x"
    by (auto simp: spaces1_then_def split: list.splits if_splits)
  then have "length (snd x) \<le> length cs"
    using spaces_then_length [of k c cs x] assms by blast
  with s show ?thesis by simp
qed

lemma match_here_length:
  "match_here rx s = Some (b, r) \<Longrightarrow> length r < length s"
proof (cases rx)
  case StartUml
  assume "match_here rx s = Some (b, r)"
  with StartUml obtain t u where "strip_prefix ''@startuml'' s = Some t"
      and "line_break t = Some u" and "lazy_body ''@enduml'' u = Some (b, r)"
    by (auto simp: bind_eq_Some_conv)
  then show ?thesis
    using strip_prefix_length [of "''@startuml''" s t] line_break_length [of t u]
      lazy_body_length [of "''@enduml''" u b r] by simp
next
  case (StartUmlId ident)
  assume "match_here rx s = Some (b, r)"
  with StartUmlId obtain t u v w where "strip_prefix ''@startuml(id='' s = Some t"
      and "match_atoms (regex_fragment ident) t = Some u"
      and "strip_prefix '')'' u = Some v"
      and "line_break v = Some w" and "lazy_body ''@enduml'' w = Some (b, r)"
    by (auto simp: bind_eq_Some_conv)
  then show ?thesis
    using strip_prefix_length [of "''@startuml(id=''" s t]
      match_atoms_length [of "regex_fragment ident" t u]
      strip_prefix_length [of "'')''" u v] line_break_length [of v w]
      lazy_body_length [of "''@enduml''" w b r] by simp
next
  case (StartSub sub)
  let ?k = "\<lambda>(p::char) r.
          Option.bind (Option.bind (match_atoms (regex_fragment sub) r) line_break)
            (lazy_body ''!endsub'')"
  assume "match_here rx s = Some (b, r)"
  with StartSub obtain t where t: "strip_prefix ''!startsub'' s = Some t"
      and m: "spaces1_then ?k t = Some (b, r)"
    by (auto simp: bind_eq_Some_conv)
  have k: "length (snd x) \<le> length s'" if "?k p s' = Some x" for p s' x
  proof -
    from that obtain u v where "match_atoms (regex_fragment sub) s' = Some u"
        and "line_break u = Some v" and "lazy_body ''!endsub'' v = Some x"
      by (auto simp: bind_eq_Some_conv)
    then show ?thesis
      using match_atoms_length [of "regex_fragment sub" s' u] line_break_length [of u v]
        lazy_body_length [of "''!endsub''" v "fst x" "snd x"] by simp
  qed
  have "length (snd (b, r)) \<le> length t"
    by (rule spaces1_then_length [of ?k t "(b, r)", OF k m])
  with t show ?thesis
    using strip_prefix_length [of "''!startsub''" s t] by simp
qed

lemma exec_length:
  "exec rx s = Some (b, r) \<Longrightarrow> length r < length s"
proof (induction s)
  case Nil
  then show ?case using match_here_length [of rx "[]" b r] by simp
next
  case (Cons c cs)
  show ?case
  proof (cases "match_here rx (c # cs)")
    case None
    with Cons.prems have "exec rx cs = Some (b, r)" by simp
    then have "length r < length cs" by (rule Cons.IH)
    then show ?thesis by simp
  next
    case (Some m)
    with Cons.prems show ?thesis using match_here_length [of rx "c # cs" b r] by simp
  qed
qed

subsection \<open>Block extraction\<close>

text \<open>
  The loops of the source over \<open>regEx.exec\<close>: the loop variable \<open>match\<close> is the last result
  of \<open>exec\<close> (\<open>None\<close> for \<open>null\<close>), which carries the \<open>lastIndex\<close> of the expression.
\<close>

function regEx_loop :: "block_regex \<Rightarrow> (string \<times> string) option \<Rightarrow> string \<Rightarrow> string" where
  "regEx_loop rx None matchedStrings = matchedStrings"
| "regEx_loop rx (Some (b, r)) matchedStrings =
     regEx_loop rx (exec rx r) (matchedStrings @ [LF] @ b)"
  by pat_completeness auto
termination
  by (relation "measure (\<lambda>(rx, m, acc). case m of None \<Rightarrow> 0 | Some (b, r) \<Rightarrow> Suc (length r))")
     (auto split: option.splits dest: exec_length)

definition getPlantUmlTextRegEx :: "string \<Rightarrow> block_regex \<Rightarrow> string" where
  "getPlantUmlTextRegEx text regEx =
     (case exec regEx text of
        None \<Rightarrow> []
      | Some (b, r) \<Rightarrow> regEx_loop regEx (exec regEx r) b)"

definition getPlantUmlTextFromSub :: "string \<Rightarrow> string \<Rightarrow> string" where
  "getPlantUmlTextFromSub text sub = getPlantUmlTextRegEx text (StartSub sub)"

definition getPlantUmlTextFromId :: "string \<Rightarrow> string \<Rightarrow> string" where
  "getPlantUmlTextFromId text ident = getPlantUmlTextRegEx text (StartUmlId ident)"

function index_loop ::
  "int \<Rightarrow> (string \<times> string) option \<Rightarrow> int \<Rightarrow> string \<Rightarrow> string" where
  "index_loop index None idx matchedStrings = matchedStrings"
| "index_loop index (Some (b, r)) idx matchedStrings =
     (if idx < index then
        (if idx + 1 = index then index_loop index (Some (b, r)) (idx + 1) (matchedStrings @ b)
         else index_loop index (exec StartUml r) (idx + 1) matchedStrings)
      else matchedStrings)"
  by pat_completeness auto
termination
  by (relation "measure (\<lambda>(index, m, idx, acc). nat (index - idx))") auto

definition getPlantUmlTextFromIndex :: "string \<Rightarrow> int \<Rightarrow> string" where
  "getPlantUmlTextFromIndex text index = index_loop index (exec StartUml text) (- 1) []"

definition getPlantUmlTextOrFirstBlock :: "string \<Rightarrow> string" where
  "getPlantUmlTextOrFirstBlock text =
     (case exec StartUml text of None \<Rightarrow> text | Some (b, r) \<Rightarrow> b)"

text \<open>
  \<open>parseInt(sub, 10)\<close>: leading whitespace is skipped, a sign is read, then the longest run
  of decimal digits; \<open>None\<close> is \<open>NaN\<close>. The value is an unbounded integer here; the loop
  that uses it only compares it with a count of blocks.
\<close>

definition is_digit :: "char \<Rightarrow> bool" where
  "is_digit c = (48 \<le> (of_char c :: nat) \<and> (of_char c :: nat) \<le> 57)"

definition digits_value :: "string \<Rightarrow> nat" where
  "digits_value ds = foldl (\<lambda>n d. 10 * n + (of_char d - 48)) 0 ds"

definition parseInt :: "string \<Rightarrow> int option" where
  "parseInt s =
     (let t = dropWhile is_space s;
          negative = (case t of [] \<Rightarrow> False | c # r \<Rightarrow> c = CHR ''-'');
          u = (case t of [] \<Rightarrow> [] | c # r \<Rightarrow> if c = CHR ''-'' \<or> c = CHR ''+'' then r else t);
          ds = takeWhile is_digit u
      in if ds = [] then None
         else Some (if negative then - int (digits_value ds) else int (digits_value ds)))"

text \<open>
  The choice of the text to include (the source, lines 104 to 118): \<open>sub\<close> is \<open>None\<close> for
  \<open>undefined\<close>.
\<close>

definition selectPlantUmlText :: "string \<Rightarrow> string option \<Rightarrow> string \<Rightarrow> string" where
  "selectPlantUmlText include sub text =
     (case sub of
        None \<Rightarrow> getPlantUmlTextOrFirstBlock text
      | Some s \<Rightarrow>
          if s = [] then getPlantUmlTextOrFirstBlock text
          else if include = ''includesub'' then getPlantUmlTextFromSub text s
          else (case parseInt s of
                  None \<Rightarrow> getPlantUmlTextFromId text s
                | Some index \<Rightarrow> getPlantUmlTextFromIndex text index))"

subsection \<open>State, failures and the platform\<close>

text \<open>
  Every failure of the source is a plain \<open>Error\<close> with a message; the constructors name
  the message and carry the path it quotes (and, for a failed read, the cause that
  \<open>addCauseToError\<close> chains).
\<close>

datatype error =
  CycleError string
| ReadError string string
| DuplicateIncludeError string

text \<open>The two \<open>console.warn\<close> messages.\<close>

datatype warning =
  SkippedStdLib string
| SkippedRemote string string

text \<open>
  The two arrays that \<open>preprocessPlantUML\<close> allocates and every call shares, and the lines
  written by \<open>console.warn\<close>.
\<close>

record pstate =
  includeOnce :: "string list"
  includeStack :: "string list"
  warnings :: "warning list"

text \<open>
  A call returns a value or throws; both leave the arrays as they are at that moment.
  \<open>None\<close> around a result means that the recursion budget of the model ran out.
\<close>

datatype 'a result = Return 'a pstate | Throw error pstate

text \<open>
  What the code takes from outside: the \<open>vfs\<close> object (\<open>read\<close> throws a cause or returns
  the text; \<open>exists\<close>), \<open>path.join\<close> and \<open>path.dirname\<close> of the platform, and the \<open>URL\<close>
  constructor (\<open>url_protocol s\<close> is \<open>None\<close> when \<open>new URL(s)\<close> throws, else the protocol).
\<close>

record env =
  vfs_read :: "string \<Rightarrow> string + string"
  vfs_exists :: "string \<Rightarrow> bool"
  path_join :: "string \<Rightarrow> string \<Rightarrow> string"
  path_dirname :: "string \<Rightarrow> string"
  url_protocol :: "string \<Rightarrow> string option"

definition isRemoteUrl :: "env \<Rightarrow> string \<Rightarrow> bool" where
  "isRemoteUrl env s = (case url_protocol env s of None \<Rightarrow> False | Some p \<Rightarrow> p \<noteq> ''file:'')"

subsection \<open>Reading an include\<close>

record read_result =
  skip :: bool
  rtext :: string
  filePath :: string

text \<open>
  \<open>filePath = path.join(dirPath, url)\<close>, and \<open>url\<close> itself when no file is there (the
  source, lines 157 to 160).
\<close>

definition resolved_path :: "env \<Rightarrow> string \<Rightarrow> string \<Rightarrow> string" where
  "resolved_path env dirPath url =
     (if vfs_exists env (path_join env dirPath url) then path_join env dirPath url else url)"

definition readPlantUmlInclude ::
  "env \<Rightarrow> string \<Rightarrow> string \<Rightarrow> pstate \<Rightarrow> read_result result" where
  "readPlantUmlInclude env url dirPath st =
     (if strip_prefix ''<'' url \<noteq> None then
        Return \<lparr>skip = True, rtext = [], filePath = url\<rparr>
          (st\<lparr>warnings := warnings st @ [SkippedStdLib url]\<rparr>)
      else if url \<in> set (includeStack st) then Throw (CycleError url) st
      else if isRemoteUrl env url then
        (case vfs_read env url of
           Inr t \<Rightarrow> Return \<lparr>skip = False, rtext = t, filePath = url\<rparr> st
         | Inl e \<Rightarrow>
             Return \<lparr>skip = True, rtext = [], filePath = url\<rparr>
               (st\<lparr>warnings := warnings st @ [SkippedRemote url e]\<rparr>))
      else
        (let p = resolved_path env dirPath url
         in if p \<in> set (includeStack st) then Throw (CycleError p) st
            else (case vfs_read env p of
                    Inr t \<Rightarrow> Return \<lparr>skip = False, rtext = t, filePath = p\<rparr> st
                  | Inl e \<Rightarrow> Throw (ReadError p e) st)))"

definition checkIncludeOnce :: "string \<Rightarrow> string \<Rightarrow> pstate \<Rightarrow> unit result" where
  "checkIncludeOnce text path st =
     (if path \<in> set (includeOnce st) then Throw (DuplicateIncludeError path) st
      else Return () (st\<lparr>includeOnce := includeOnce st @ [path]\<rparr>))"

subsection \<open>Expansion\<close>

text \<open>\<open>toLowerCase\<close> on code units below 256.\<close>

definition lower_char :: "char \<Rightarrow> char" where
  "lower_char c =
     (let n = (of_char c :: nat)
      in if (65 \<le> n \<and> n \<le> 90) \<or> (192 \<le> n \<and> n \<le> 222 \<and> n \<noteq> 215) then char_of (n + 32) else c)"

definition toLowerCase :: "string \<Rightarrow> string" where
  "toLowerCase s = map lower_char s"

text \<open>\<open>url.replace(/\\ /g, ' ')\<close>\<close>

fun unescape_spaces :: "string \<Rightarrow> string" where
  "unescape_spaces (c # d # cs) =
     (if c = BSLASH \<and> d = CHR '' '' then CHR '' '' # unescape_spaces cs
      else c # unescape_spaces (d # cs))"
| "unescape_spaces cs = cs"

text \<open>
  \<open>urlSub = args[1].trim().split('!')\<close>, then \<open>url = urlSub[0].replace(/\\ /g, ' ')\<close> and
  \<open>sub = urlSub[1]\<close>, which is \<open>undefined\<close> (\<open>None\<close>) when the reference has no \<open>!\<close>.
\<close>

definition urlSub :: "include_match \<Rightarrow> string list" where
  "urlSub m = split_on (CHR ''!'') (trim (group2 m))"

definition directive_url :: "include_match \<Rightarrow> string" where
  "directive_url m = unescape_spaces (hd (urlSub m))"

definition directive_sub :: "include_match \<Rightarrow> string option" where
  "directive_sub m = (case tl (urlSub m) of [] \<Rightarrow> None | s # rest \<Rightarrow> Some s)"

text \<open>
  \<open>line.replace(regExInclude, callback)\<close>: a line that does not match stays; in a line that
  matches, the match is replaced by what the callback returns and the rest of the line
  follows. \<open>recurse\<close> is the recursive call of \<open>preprocessPlantUmlIncludes\<close>.
\<close>

definition replace_include ::
  "(string \<Rightarrow> string \<Rightarrow> pstate \<Rightarrow> string result option) \<Rightarrow> env \<Rightarrow> string \<Rightarrow> string \<Rightarrow> pstate
    \<Rightarrow> string result option" where
  "replace_include recurse env dirPath line st =
     (case regExInclude line of
        None \<Rightarrow> Some (Return line st)
      | Some m \<Rightarrow>
          (let include = toLowerCase (group1 m);
               url = directive_url m;
               sub = directive_sub m
           in case readPlantUmlInclude env url dirPath st of
                Throw e st' \<Rightarrow> Some (Throw e st')
              | Return res st1 \<Rightarrow>
                  if skip res then Some (Return (line @ unmatched m) st1)
                  else
                    (case (if include = ''include_once''
                           then checkIncludeOnce (rtext res) (filePath res) st1
                           else Return () st1) of
                       Throw e st' \<Rightarrow> Some (Throw e st')
                     | Return u st2 \<Rightarrow>
                         (case recurse (selectPlantUmlText include sub (rtext res))
                                 (path_dirname env (filePath res))
                                 (st2\<lparr>includeStack := includeStack st2 @ [filePath res]\<rparr>) of
                            None \<Rightarrow> None
                          | Some (Throw e st') \<Rightarrow> Some (Throw e st')
                          | Some (Return text st3) \<Rightarrow>
                              Some (Return (text @ unmatched m)
                                      (st3\<lparr>includeStack := butlast (includeStack st3)\<rparr>))))))"

text \<open>\<open>diagramLines.map(callback)\<close>: the lines in order; the first throw ends the call.\<close>

fun map_lines ::
  "(string \<Rightarrow> pstate \<Rightarrow> string result option) \<Rightarrow> string list \<Rightarrow> pstate
    \<Rightarrow> string list result option" where
  "map_lines f [] st = Some (Return [] st)"
| "map_lines f (l # ls) st =
     (case f l st of
        None \<Rightarrow> None
      | Some (Throw e st') \<Rightarrow> Some (Throw e st')
      | Some (Return t st') \<Rightarrow>
          (case map_lines f ls st' of
             None \<Rightarrow> None
           | Some (Throw e st'') \<Rightarrow> Some (Throw e st'')
           | Some (Return ts st'') \<Rightarrow> Some (Return (t # ts) st'')))"

definition strip_comments :: "string \<Rightarrow> string" where
  "strip_comments text = remove_line_comments (remove_block_comments text)"

text \<open>
  The first argument bounds the depth of nested includes: the source recurses once for
  every include that it expands, and nothing in it bounds that depth.
\<close>

fun preprocessPlantUmlIncludes ::
  "nat \<Rightarrow> env \<Rightarrow> string \<Rightarrow> string \<Rightarrow> pstate \<Rightarrow> string result option" where
  "preprocessPlantUmlIncludes 0 env diagramText dirPath st = None"
| "preprocessPlantUmlIncludes (Suc n) env diagramText dirPath st =
     (case map_lines (replace_include (preprocessPlantUmlIncludes n env) env dirPath)
             (split_on LF (strip_comments diagramText)) st of
        None \<Rightarrow> None
      | Some (Throw e st') \<Rightarrow> Some (Throw e st')
      | Some (Return diagramProcessed st') \<Rightarrow> Some (Return (join [LF] diagramProcessed) st'))"

definition preprocessPlantUML :: "nat \<Rightarrow> env \<Rightarrow> string \<Rightarrow> string result option" where
  "preprocessPlantUML n env diagramText =
     preprocessPlantUmlIncludes n env diagramText ''.''
       \<lparr>includeOnce = [], includeStack = [], warnings = []\<rparr>"

section \<open>The Vega-Lite transform\<close>

text \<open>
  \<open>preprocessVegaLite\<close> works on the value that \<open>JSON5.parse\<close> returns. A value is modelled
  with its own type; numbers are of a type \<open>'n\<close> that the model does not look into, and an
  object is the list of its members in the order in which the platform enumerates them.
  The parser, \<open>vfs.read\<close>, the \<open>URL\<close> constructor, \<open>ToString\<close> of a value that is not a
  string, the truth value of a number, and the texts that \<open>JSON.stringify\<close> gives a string
  and a number come from outside.
\<close>

datatype 'n json =
  JUndefined
| JNull
| JBool bool
| JNumber 'n
| JString string
| JArray "'n json list"
| JObject "(string \<times> 'n json) list"



text \<open>
  \<open>v.k\<close> for one of the keys that the transform reads, which no prototype defines: the
  member of an object, \<open>undefined\<close> for any other value.
\<close>

fun get_property :: "'n json \<Rightarrow> string \<Rightarrow> 'n json" where
  "get_property (JObject kvs) k = (case map_of kvs k of None \<Rightarrow> JUndefined | Some v \<Rightarrow> v)"
| "get_property v k = JUndefined"

text \<open>
  \<open>v.k = x\<close>: an object keeps the place of a member that it has, and gets a new member
  last. The transform assigns to objects only.
\<close>

fun put :: "string \<Rightarrow> 'a \<Rightarrow> (string \<times> 'a) list \<Rightarrow> (string \<times> 'a) list" where
  "put k v [] = [(k, v)]"
| "put k v (kv # kvs) = (if fst kv = k then (k, v) # kvs else kv # put k v kvs)"

fun set_property :: "'n json \<Rightarrow> string \<Rightarrow> 'n json \<Rightarrow> 'n json" where
  "set_property (JObject kvs) k v = JObject (put k v kvs)"
| "set_property x k v = x"













section \<open>Notions of the specification\<close>

text \<open>A text with zero include directives: no line of it matches the include grammar.\<close>

definition directive_free :: "string \<Rightarrow> bool" where
  "directive_free text = list_all (\<lambda>l. regExInclude l = None) (split_on LF text)"

text \<open>
  The blocks of a text for a block expression: every match, leftmost first, each search
  starting where the match before it ended, so that no two overlap; \<open>block_bodies\<close> lists
  their bodies (group 1) in the order of the text.
\<close>

function matches_from :: "block_regex \<Rightarrow> (string \<times> string) option \<Rightarrow> string list" where
  "matches_from rx None = []"
| "matches_from rx (Some (b, r)) = b # matches_from rx (exec rx r)"
  by pat_completeness auto
termination
  by (relation "measure (\<lambda>(rx, m). case m of None \<Rightarrow> 0 | Some (b, r) \<Rightarrow> Suc (length r))")
     (auto split: option.splits dest: exec_length)

definition block_bodies :: "block_regex \<Rightarrow> string \<Rightarrow> string list" where
  "block_bodies rx text = matches_from rx (exec rx text)"


section \<open>A small file system for the concrete runs\<close>

definition example_files :: "string \<Rightarrow> string + string" where
  "example_files p =
     (if p = ''foo.txt'' then Inr ''hello''
      else if p = ''a.puml'' then Inr ''!include b.puml''
      else if p = ''b.puml'' then Inr ''!include a.puml''
      else if p = ''c.puml'' then Inr ''!include missing.puml''
      else Inl ''ENOENT'')"

definition example_env :: env where
  "example_env =
     \<lparr>vfs_read = example_files,
      vfs_exists = (\<lambda>p. case example_files p of Inl e \<Rightarrow> False | Inr t \<Rightarrow> True),
      path_join = (\<lambda>d u. if d = ''.'' then u else d @ ''/'' @ u),
      path_dirname = (\<lambda>p. ''.''),
      url_protocol = (\<lambda>s. case strip_prefix ''http://'' s of None \<Rightarrow> None | Some r \<Rightarrow> Some ''http:'')\<rparr>"



definition empty_state :: pstate where
  "empty_state = \<lparr>includeOnce = [], includeStack = [], warnings = []\<rparr>"

section \<open>Properties\<close>

subsection \<open>The keyword of a directive\<close>

text \<open>
  C5. The claim: the keyword of a directive is matched without regard to letter case, so
  that \<open>!INCLUDE foo.txt\<close> is expanded as \<open>!include foo.txt\<close> is. The code lowers the
  captured keyword with \<open>toLowerCase\<close>, but \<open>regExInclude\<close> has no \<open>i\<close> flag: the line
  \<open>!INCLUDE foo.txt\<close> does not match and is returned as it is, where \<open>!include foo.txt\<close>
  is replaced by the content of the file.
\<close>

theorem C5_upper_case_keyword_not_expanded:
  "regExInclude ''!INCLUDE foo.txt'' = None
   \<and> regExInclude ''!Include_Once foo.txt'' = None
   \<and> preprocessPlantUML 2 example_env ''!INCLUDE foo.txt''
       = Some (Return ''!INCLUDE foo.txt'' empty_state)
   \<and> preprocessPlantUML 2 example_env ''!include foo.txt''
       = Some (Return ''hello'' empty_state)"
  by code_simp

subsection \<open>Single-line comments\<close>



lemma not_dot_cases: "\<not> dot c \<Longrightarrow> c = LF \<or> c = CR"
  by (simp add: dot_def is_line_terminator_def LF_def CR_def)











subsection \<open>A document without directives\<close>

lemma split_on_not_Nil: "split_on sep s \<noteq> []"
  by (induction s) (auto split: list.splits)

lemma join_Cons_head: "join sep ((c # l) # ls) = c # join sep (l # ls)"
  by (cases ls) auto

lemma join_split_on: "join [sep] (split_on sep s) = s"
proof (induction s)
  case Nil
  then show ?case by simp
next
  case (Cons c cs)
  obtain l ls where sp: "split_on sep cs = l # ls"
    using split_on_not_Nil [of sep cs] by (cases "split_on sep cs") auto
  with Cons.IH have j: "join [sep] (l # ls) = cs" by simp
  show ?case
  proof (cases "c = sep")
    case True
    then show ?thesis using sp j by simp
  next
    case False
    then show ?thesis using sp j by (simp add: join_Cons_head)
  qed
qed

lemma map_lines_no_directive:
  "list_all (\<lambda>l. regExInclude l = None) ls \<Longrightarrow>
     map_lines (replace_include recurse env dirPath) ls st = Some (Return ls st)"
  by (induction ls) (auto simp: replace_include_def)

lemma regExCommentMultiLine_no_APOS: "APOS \<notin> set s \<Longrightarrow> regExCommentMultiLine s = None"
  by (cases s rule: regExCommentMultiLine.cases) auto

lemma remove_block_comments_no_APOS: "APOS \<notin> set s \<Longrightarrow> remove_block_comments s = s"
  by (induction s) (simp_all add: regExCommentMultiLine_no_APOS)

lemma regExCommentSingleLine_no_APOS:
  assumes "APOS \<notin> set s"
  shows "regExCommentSingleLine s = None"
proof -
  have "APOS \<notin> set (takeWhile dot s)"
    using assms set_takeWhileD by fastforce
  then have "count_list (takeWhile dot s) APOS = 0"
    by (simp add: count_list_0_iff)
  then show ?thesis by (simp add: regExCommentSingleLine_def)
qed

lemma remove_line_comments_no_APOS: "APOS \<notin> set s \<Longrightarrow> remove_line_comments s = s"
  by (induction s) (simp_all add: regExCommentSingleLine_no_APOS)

lemma strip_comments_no_APOS: "APOS \<notin> set s \<Longrightarrow> strip_comments s = s"
  by (simp add: strip_comments_def remove_block_comments_no_APOS remove_line_comments_no_APOS)

lemma preprocess_directive_free:
  assumes "directive_free (strip_comments text)"
  shows "preprocessPlantUmlIncludes (Suc n) env text dirPath st
           = Some (Return (strip_comments text) st)"
  using assms
  by (simp add: directive_free_def map_lines_no_directive join_split_on)

text \<open>
  C6. The claim: a document with zero include directives is returned unchanged. The code
  strips comments first, so a document with a comment and no directive comes back without
  the comment: \<open>a /' c '/ b\<close> becomes \<open>a  b\<close>.
\<close>

theorem C6_counterexample:
  "directive_free (''a /'' @ [APOS] @ '' c '' @ [APOS] @ ''/ b'')
   \<and> preprocessPlantUML 1 example_env (''a /'' @ [APOS] @ '' c '' @ [APOS] @ ''/ b'')
       = Some (Return ''a  b'' empty_state)
   \<and> ''a  b'' \<noteq> ''a /'' @ [APOS] @ '' c '' @ [APOS] @ ''/ b''"
  by code_simp

text \<open>
  C6, as the code has it: when the text left by the comment stripping has no include
  directive, the expansion returns that text, character for character, and changes
  neither array; a text with no apostrophe has no comment and is returned as it is.
\<close>

theorem C6_directive_free_text_is_only_stripped:
  assumes "directive_free (strip_comments text)"
  shows "preprocessPlantUmlIncludes (Suc n) env text dirPath st
           = Some (Return (strip_comments text) st)
         \<and> (APOS \<notin> set text \<longrightarrow> strip_comments text = text)"
  using preprocess_directive_free [OF assms, of n env dirPath st]
    strip_comments_no_APOS [of "text"] by blast

theorem C6_witness:
  "preprocessPlantUmlIncludes 1 example_env ''Alice -> Bob\<newline>  note left  \<newline>'' ''.'' empty_state
     = Some (Return ''Alice -> Bob\<newline>  note left  \<newline>'' empty_state)"
proof -
  let ?t = "''Alice -> Bob\<newline>  note left  \<newline>''"
  have s: "strip_comments ?t = ?t"
    by (rule strip_comments_no_APOS) (simp add: APOS_def)
  have "directive_free ?t"
    by code_simp
  then have h: "directive_free (strip_comments ?t)"
    using s by simp
  show ?thesis
    using C6_directive_free_text_is_only_stripped [OF h, of 0 example_env "''.''" empty_state] s
    by simp
qed

subsection \<open>Sub-blocks and blocks by index\<close>

lemma join_LF_Cons: "join [LF] (b # bs) = b @ concat (map (\<lambda>x. LF # x) bs)"
  by (induction bs arbitrary: b) auto

lemma regEx_loop_matches:
  "regEx_loop rx m acc = acc @ concat (map (\<lambda>x. LF # x) (matches_from rx m))"
  by (induction rx m acc rule: regEx_loop.induct) auto

lemma getPlantUmlTextRegEx_join:
  "getPlantUmlTextRegEx text rx = join [LF] (block_bodies rx text)"
  by (cases "exec rx text")
     (auto simp: getPlantUmlTextRegEx_def block_bodies_def regEx_loop_matches join_LF_Cons)

lemma index_loop_nth:
  "index_loop index m idx acc =
     (if idx < index \<and> nat (index - idx - 1) < length (matches_from StartUml m)
      then acc @ matches_from StartUml m ! nat (index - idx - 1)
      else acc)"
proof (induction index m idx acc rule: index_loop.induct)
  case (1 index idx acc)
  then show ?case by simp
next
  case (2 index b r idx acc)
  show ?case
  proof (cases "idx < index")
    case False
    then show ?thesis by simp
  next
    case lt: True
    show ?thesis
    proof (cases "idx + 1 = index")
      case True
      then have "index_loop index (Some (b, r)) (idx + 1) (acc @ b) = acc @ b"
        using "2.IH"(1) lt by simp
      then show ?thesis using lt True by simp
    next
      case False
      have n: "nat (index - idx - 1) = Suc (nat (index - (idx + 1) - 1))"
        using lt False by simp
      show ?thesis
        using "2.IH"(2) lt False by (simp add: n del: index_loop.simps) (simp add: lt False)
    qed
  qed
qed

lemma getPlantUmlTextFromIndex_nth:
  "getPlantUmlTextFromIndex text k =
     (if 0 \<le> k \<and> nat k < length (block_bodies StartUml text)
      then block_bodies StartUml text ! nat k else [])"
  by (simp add: getPlantUmlTextFromIndex_def index_loop_nth block_bodies_def)

lemma strip_prefix_Some: "strip_prefix p s = Some r \<Longrightarrow> s = p @ r"
  by (induction p s rule: strip_prefix.induct) (auto split: if_splits)

lemma line_break_Some: "line_break s = Some r \<Longrightarrow> s = [LF] @ r \<or> s = [CR, LF] @ r"
  by (cases s) (auto split: if_splits list.splits)

lemma lazy_body_Some:
  "lazy_body e s = Some (b, r) \<Longrightarrow> \<exists>nl. (nl = [LF] \<or> nl = [CR, LF]) \<and> s = b @ nl @ e @ r"
proof (induction s arbitrary: b)
  case Nil
  then show ?case by simp
next
  case (Cons c cs)
  show ?case
  proof (cases "Option.bind (line_break (c # cs)) (strip_prefix e)")
    case (Some r')
    then obtain t where t: "line_break (c # cs) = Some t" and p: "strip_prefix e t = Some r'"
      by (auto simp: bind_eq_Some_conv)
    from Cons.prems Some have br: "b = []" "r' = r" by simp_all
    from p have "t = e @ r'" by (rule strip_prefix_Some)
    then have "c # cs = [LF] @ e @ r \<or> c # cs = [CR, LF] @ e @ r"
      using line_break_Some [OF t] br by simp
    then obtain nl where "nl = [LF] \<or> nl = [CR, LF]" and "c # cs = nl @ e @ r"
      by blast
    then have "(nl = [LF] \<or> nl = [CR, LF]) \<and> c # cs = b @ nl @ e @ r"
      using br by simp
    then show ?thesis by (rule exI)
  next
    case None
    with Cons.prems obtain b' where b': "lazy_body e cs = Some (b', r)" and b: "b = c # b'"
      by auto
    from Cons.IH [OF b'] obtain nl where "nl = [LF] \<or> nl = [CR, LF]"
        and "cs = b' @ nl @ e @ r" by blast
    then have "(nl = [LF] \<or> nl = [CR, LF]) \<and> c # cs = b @ nl @ e @ r"
      using b by simp
    then show ?thesis by (rule exI)
  qed
qed

lemma match_atoms_Lit: "match_atoms (map Lit n) s = strip_prefix n s"
  by (induction n s rule: strip_prefix.induct) auto

lemma regex_fragment_plain: "plain_selector s \<Longrightarrow> regex_fragment s = map Lit s"
  by (induction s) (auto simp: plain_selector_def regex_fragment_def syntax_character_def)

lemma spaces_then_Some:
  "spaces_then k p s = Some x \<Longrightarrow>
     \<exists>ws rest q. s = ws @ rest \<and> list_all is_space ws \<and> k q rest = Some x"
proof (induction s arbitrary: p)
  case Nil
  then show ?case by auto
next
  case (Cons c cs)
  show ?case
  proof (cases "is_space c \<and> spaces_then k c cs \<noteq> None")
    case True
    with Cons.prems have "spaces_then k c cs = Some x" by auto
    from Cons.IH [OF this] obtain ws rest q
      where "cs = ws @ rest" "list_all is_space ws" "k q rest = Some x" by blast
    with True have "c # cs = (c # ws) @ rest \<and> list_all is_space (c # ws) \<and> k q rest = Some x"
      by simp
    then show ?thesis by blast
  next
    case False
    with Cons.prems have "k p (c # cs) = Some x" by (auto split: if_splits)
    then have "c # cs = [] @ (c # cs) \<and> list_all is_space [] \<and> k p (c # cs) = Some x" by simp
    then show ?thesis by blast
  qed
qed

lemma spaces1_then_Some:
  assumes "spaces1_then k s = Some x"
  shows "\<exists>ws rest q. s = ws @ rest \<and> ws \<noteq> [] \<and> list_all is_space ws \<and> k q rest = Some x"
proof -
  from assms obtain c cs where s: "s = c # cs" and c: "is_space c"
      and m: "spaces_then k c cs = Some x"
    by (auto simp: spaces1_then_def split: list.splits if_splits)
  from spaces_then_Some [OF m] obtain ws rest q
    where "cs = ws @ rest" "list_all is_space ws" "k q rest = Some x" by blast
  with s c have "s = (c # ws) @ rest \<and> c # ws \<noteq> [] \<and> list_all is_space (c # ws)
      \<and> k q rest = Some x" by simp
  then show ?thesis by blast
qed

lemma match_here_sub_shape:
  assumes "plain_selector sub" and "match_here (StartSub sub) s = Some (b, r)"
  shows "\<exists>ws nl nl'. ws \<noteq> [] \<and> list_all is_space ws
           \<and> (nl = [LF] \<or> nl = [CR, LF]) \<and> (nl' = [LF] \<or> nl' = [CR, LF])
           \<and> s = ''!startsub'' @ ws @ sub @ nl @ b @ nl' @ ''!endsub'' @ r"
proof -
  let ?k = "\<lambda>(p::char) r.
          Option.bind (Option.bind (match_atoms (regex_fragment sub) r) line_break)
            (lazy_body ''!endsub'')"
  from assms(2) obtain t where t: "strip_prefix ''!startsub'' s = Some t"
      and m: "spaces1_then ?k t = Some (b, r)"
    by (auto simp: bind_eq_Some_conv)
  from spaces1_then_Some [OF m] obtain ws rest q
    where ws: "t = ws @ rest" "ws \<noteq> []" "list_all is_space ws" and k: "?k q rest = Some (b, r)"
    by blast
  from k obtain u v where u: "strip_prefix sub rest = Some u"
      and v: "line_break u = Some v" and l: "lazy_body ''!endsub'' v = Some (b, r)"
    by (auto simp: bind_eq_Some_conv regex_fragment_plain [OF assms(1)] match_atoms_Lit)
  from lazy_body_Some [OF l] obtain nl' where nl': "nl' = [LF] \<or> nl' = [CR, LF]"
      and v': "v = b @ nl' @ ''!endsub'' @ r" by blast
  from line_break_Some [OF v] obtain nl where nl: "nl = [LF] \<or> nl = [CR, LF]"
      and u': "u = nl @ v" by blast
  have "s = ''!startsub'' @ ws @ sub @ nl @ b @ nl' @ ''!endsub'' @ r"
    using strip_prefix_Some [OF t] strip_prefix_Some [OF u] ws(1) u' v' by simp
  with ws(2,3) nl nl' show ?thesis by blast
qed

lemma exec_Some: "exec rx s = Some m \<Longrightarrow> \<exists>before s'. s = before @ s' \<and> match_here rx s' = Some m"
proof (induction s)
  case Nil
  then show ?case by simp
next
  case (Cons c cs)
  show ?case
  proof (cases "match_here rx (c # cs)")
    case None
    with Cons.prems have "exec rx cs = Some m" by simp
    from Cons.IH [OF this] obtain before s' where "cs = before @ s'" "match_here rx s' = Some m"
      by blast
    then have "c # cs = (c # before) @ s' \<and> match_here rx s' = Some m" by simp
    then show ?thesis by blast
  next
    case (Some m')
    with Cons.prems have "c # cs = [] @ (c # cs) \<and> match_here rx (c # cs) = Some m" by simp
    then show ?thesis by blast
  qed
qed

lemma exec_sub_shape:
  assumes "plain_selector sub" and "exec (StartSub sub) s = Some (b, r)"
  shows "\<exists>before ws nl nl'. ws \<noteq> [] \<and> list_all is_space ws
           \<and> (nl = [LF] \<or> nl = [CR, LF]) \<and> (nl' = [LF] \<or> nl' = [CR, LF])
           \<and> s = before @ ''!startsub'' @ ws @ sub @ nl @ b @ nl' @ ''!endsub'' @ r"
proof -
  from exec_Some [OF assms(2)] obtain before s' where s: "s = before @ s'"
      and m: "match_here (StartSub sub) s' = Some (b, r)" by blast
  from match_here_sub_shape [OF assms(1) m] s show ?thesis by blast
qed

text \<open>
  C7. The claim: for every selector, \<open>!includesub\<close> returns the bodies of the sub-blocks
  that carry exactly that name. The selector is spliced into the regular expression
  unescaped, so the selector \<open>A.B\<close> also selects the sub-block named \<open>AxB\<close>.
\<close>

theorem C7_counterexample:
  "getPlantUmlTextFromSub ''!startsub AxB\<newline>foo\<newline>!endsub'' ''A.B'' = ''foo''"
  by code_simp

text \<open>
  C7, as the code has it: for a selector with no syntax character of regular expressions,
  the result is the bodies of all matches of the sub-block expression, in the order of the
  text, with one newline between two bodies and none after the last; no match gives the
  empty text; and every match is \<open>!startsub\<close>, whitespace, the selector itself, a line
  break, the body, a line break and \<open>!endsub\<close>.
\<close>

theorem C7_sub_blocks_joined_by_newline:
  assumes "plain_selector sub"
  shows "getPlantUmlTextFromSub text sub = join [LF] (block_bodies (StartSub sub) text)
       \<and> (block_bodies (StartSub sub) text = [] \<longrightarrow> getPlantUmlTextFromSub text sub = [])
       \<and> (exec (StartSub sub) s = Some (b, r) \<longrightarrow>
            (\<exists>before ws nl nl'. ws \<noteq> [] \<and> list_all is_space ws
               \<and> (nl = [LF] \<or> nl = [CR, LF]) \<and> (nl' = [LF] \<or> nl' = [CR, LF])
               \<and> s = before @ ''!startsub'' @ ws @ sub @ nl @ b @ nl' @ ''!endsub'' @ r))"
proof (intro conjI impI)
  show j: "getPlantUmlTextFromSub text sub = join [LF] (block_bodies (StartSub sub) text)"
    by (simp add: getPlantUmlTextFromSub_def getPlantUmlTextRegEx_join)
  assume "block_bodies (StartSub sub) text = []"
  with j show "getPlantUmlTextFromSub text sub = []" by simp
next
  assume "exec (StartSub sub) s = Some (b, r)"
  with assms show "\<exists>before ws nl nl'. ws \<noteq> [] \<and> list_all is_space ws
               \<and> (nl = [LF] \<or> nl = [CR, LF]) \<and> (nl' = [LF] \<or> nl' = [CR, LF])
               \<and> s = before @ ''!startsub'' @ ws @ sub @ nl @ b @ nl' @ ''!endsub'' @ r"
    by (rule exec_sub_shape)
qed

text \<open>Two sub-blocks named \<open>A\<close> around one named \<open>B\<close>: both bodies, one newline between.\<close>

theorem C7_witness:
  "getPlantUmlTextFromSub
     ''!startsub A\<newline>one\<newline>!endsub\<newline>!startsub B\<newline>two\<newline>!endsub\<newline>!startsub A\<newline>three\<newline>!endsub\<newline>''
     ''A'' = ''one\<newline>three''
   \<and> getPlantUmlTextFromSub ''!startsub B\<newline>two\<newline>!endsub'' ''A'' = []"
proof -
  let ?t = "''!startsub A\<newline>one\<newline>!endsub\<newline>!startsub B\<newline>two\<newline>!endsub\<newline>!startsub A\<newline>three\<newline>!endsub\<newline>''"
  have h: "plain_selector ''A''"
    by code_simp
  have b: "block_bodies (StartSub ''A'') ?t = [''one'', ''three'']"
    by code_simp
  have e: "block_bodies (StartSub ''A'') ''!startsub B\<newline>two\<newline>!endsub'' = []"
    by code_simp
  note t = C7_sub_blocks_joined_by_newline [OF h]
  have "getPlantUmlTextFromSub ?t ''A'' = join [LF] (block_bodies (StartSub ''A'') ?t)"
    using t [of ?t, THEN conjunct1] .
  moreover have "getPlantUmlTextFromSub ''!startsub B\<newline>two\<newline>!endsub'' ''A'' = []"
    using t [of "''!startsub B\<newline>two\<newline>!endsub''", THEN conjunct2, THEN conjunct1] e by blast
  ultimately show ?thesis using b by (simp add: LF_def)
qed

text \<open>
  C8. Positional extraction returns the body of the block at the zero-based index among
  the top-level blocks of the text, and the empty text, with no failure, for an index that
  is not below the number of blocks (or is negative).
\<close>

theorem C8_block_by_index:
  "getPlantUmlTextFromIndex text k =
     (if 0 \<le> k \<and> nat k < length (block_bodies StartUml text)
      then block_bodies StartUml text ! nat k else [])"
  by (rule getPlantUmlTextFromIndex_nth)

text \<open>A file with three blocks: index 1 is the second body, index 3 the empty text.\<close>

theorem C8_witness:
  "getPlantUmlTextFromIndex
     ''@startuml\<newline>one\<newline>@enduml\<newline>@startuml\<newline>two\<newline>@enduml\<newline>@startuml\<newline>three\<newline>@enduml\<newline>'' 1 = ''two''
   \<and> getPlantUmlTextFromIndex
     ''@startuml\<newline>one\<newline>@enduml\<newline>@startuml\<newline>two\<newline>@enduml\<newline>@startuml\<newline>three\<newline>@enduml\<newline>'' 3 = []
   \<and> selectPlantUmlText ''include'' (Some ''1'')
     ''@startuml\<newline>one\<newline>@enduml\<newline>@startuml\<newline>two\<newline>@enduml\<newline>@startuml\<newline>three\<newline>@enduml\<newline>'' = ''two''"
proof -
  let ?t = "''@startuml\<newline>one\<newline>@enduml\<newline>@startuml\<newline>two\<newline>@enduml\<newline>@startuml\<newline>three\<newline>@enduml\<newline>''"
  have b: "block_bodies StartUml ?t = [''one'', ''two'', ''three'']"
    by code_simp
  have p: "parseInt ''1'' = Some 1"
    by code_simp
  have 1: "getPlantUmlTextFromIndex ?t 1 = ''two''"
    using C8_block_by_index [of ?t 1] b by simp
  have 3: "getPlantUmlTextFromIndex ?t 3 = []"
    using C8_block_by_index [of ?t 3] b by simp
  show ?thesis
    using 1 3 p by (simp add: selectPlantUmlText_def)
qed

subsection \<open>What a call does to the two arrays\<close>


lemma readPlantUmlInclude_Throw:
  "readPlantUmlInclude env url dirPath st = Throw e st1 \<Longrightarrow> st1 = st"
  by (auto simp: readPlantUmlInclude_def Let_def split: if_splits sum.splits)










lemma replace_include_skipped:
  assumes "regExInclude line = Some m"
    and "readPlantUmlInclude env (directive_url m) dirPath st = Return res st1"
    and "skip res"
  shows "replace_include recurse env dirPath line st = Some (Return (line @ unmatched m) st1)"
  using assms by (simp add: replace_include_def)



text \<open>
  The two ways a read fails (the source, lines 148 to 171): a remote reference is skipped
  with a warning, a local one throws the error that wraps the cause.
\<close>

lemma readPlantUmlInclude_remote_failure:
  assumes "strip_prefix ''<'' url = None" and "url \<notin> set (includeStack st)"
    and "isRemoteUrl env url" and "vfs_read env url = Inl cause"
  shows "readPlantUmlInclude env url dirPath st =
           Return \<lparr>skip = True, rtext = [], filePath = url\<rparr>
             (st\<lparr>warnings := warnings st @ [SkippedRemote url cause]\<rparr>)"
  using assms by (simp add: readPlantUmlInclude_def)

lemma readPlantUmlInclude_local_failure:
  assumes "strip_prefix ''<'' url = None" and "url \<notin> set (includeStack st)"
    and "\<not> isRemoteUrl env url"
    and "resolved_path env dirPath url \<notin> set (includeStack st)"
    and "vfs_read env (resolved_path env dirPath url) = Inl cause"
  shows "readPlantUmlInclude env url dirPath st =
           Throw (ReadError (resolved_path env dirPath url) cause) st"
  using assms by (simp add: readPlantUmlInclude_def Let_def)



subsection \<open>Cycles\<close>



subsection \<open>The one-shot guard\<close>



subsection \<open>Failed reads\<close>

text \<open>
  C3. The claim: after a failed read of a remote reference the directive line is left
  untouched in the output. The callback returns \<open>line\<close> for the match, and the match ends
  where \<open>(.*)\<close> ends, before a line terminator: in a document with \<open>\r\n\<close> line ends, a
  directive with a space after the reference keeps its carriage return after the match,
  and the line comes back with two of them.
\<close>

theorem C3_skipped_line_gains_a_carriage_return:
  "preprocessPlantUML 1 example_env (''!include http://h/x '' @ [CR, LF] @ ''Bob -> Alice'')
     = Some (Return (''!include http://h/x '' @ [CR, CR, LF] @ ''Bob -> Alice'')
         \<lparr>includeOnce = [], includeStack = [],
            warnings = [SkippedRemote ''http://h/x'' ''ENOENT'']\<rparr>)"
  by code_simp

subsection \<open>The inclusion stack\<close>




subsection \<open>Inlining the data of a Vega-Lite specification\<close>


lemma map_of_put: "map_of (put k v kvs) = (map_of kvs)(k \<mapsto> v)"
  by (induction kvs) (auto simp: fun_eq_iff)

lemma get_set_same: "get_property (set_property (JObject kvs) k v) k = v"
  by (simp add: map_of_put)

lemma get_set_other: "k' \<noteq> k \<Longrightarrow>
    get_property (set_property (JObject kvs) k v) k' = get_property (JObject kvs) k'"
  by (simp add: map_of_put)

lemma set_property_object: "\<exists>kvs'. set_property (JObject kvs) k v = JObject kvs'"
  by simp






lemma filter_put_other:
  "k' \<noteq> k \<Longrightarrow> filter (\<lambda>kv. fst kv \<noteq> k) (put k' v kvs) = put k' v (filter (\<lambda>kv. fst kv \<noteq> k) kvs)"
  by (induction kvs) auto







end
